theory Spec2Isabelle
  imports Main "HOL-Library.Mapping"
begin

section \<open>Strings: the functions of Go's strings package that purify.go calls\<close>

text \<open>
  A Go string is a sequence of bytes, here a \<open>char list\<close>. The separators and cutsets
  that purify.go passes are single ASCII bytes, so the byte-wise functions below agree
  with the library's rune-wise ones.
\<close>

text \<open>\<open>strings.Index(s, sep)\<close> for a one-byte separator: the index of its first
  occurrence, or \<open>-1\<close>.\<close>

fun Index :: "string \<Rightarrow> char \<Rightarrow> int" where
  "Index [] c = -1"
| "Index (x # xs) c =
     (if x = c then 0 else (let i = Index xs c in if i = -1 then -1 else i + 1))"

text \<open>\<open>strings.Split(s, sep)\<close> for a one-byte separator: the pieces between the
  separators, one more than there are separators; the empty string gives one empty piece.\<close>

fun Split :: "string \<Rightarrow> char \<Rightarrow> string list" where
  "Split [] c = [[]]"
| "Split (x # xs) c =
     (if x = c then [] # Split xs c
      else (case Split xs c of [] \<Rightarrow> [[x]] | w # ws \<Rightarrow> (x # w) # ws))"

text \<open>\<open>strings.TrimRight(s, cutset)\<close>: all trailing bytes that occur in the cutset
  are removed.\<close>

definition TrimRight :: "string \<Rightarrow> string \<Rightarrow> string" where
  "TrimRight s cutset = rev (dropWhile (\<lambda>c. c \<in> set cutset) (rev s))"

section \<open>The rule grammar\<close>

text \<open>
  \<^verbatim>\<open>
  func parseRule(rule string) (string, string) {
      idx := strings.Index(rule, "(")
      if idx == -1 { return rule, "" }
      ruleName := rule[:idx]
      param := strings.TrimRight(rule[idx+1:], ")")
      return ruleName, param
  }
  \<close>
\<close>

definition parseRule :: "string \<Rightarrow> string \<times> string" where
  "parseRule rule =
     (let idx = Index rule CHR ''(''
      in if idx = -1 then (rule, '''')
         else (take (nat idx) rule, TrimRight (drop (nat (idx + 1)) rule) '')''))"

section \<open>The registry of validators\<close>

type_synonym ValidatorFunc = "string \<Rightarrow> string \<Rightarrow> string"

text \<open>The package variable \<open>validators\<close>, a Go map from rule names to functions.\<close>

type_synonym registry = "string \<rightharpoonup> ValidatorFunc"

definition RegisterValidator :: "string \<Rightarrow> ValidatorFunc \<Rightarrow> registry \<Rightarrow> registry" where
  "RegisterValidator name fn validators = validators(name \<mapsto> fn)"

section \<open>The values that ValidateStruct receives\<close>

text \<open>
  A struct field as reflection shows it: its declared name, whether it is exported, its
  tag as the list of key/value pairs that \<open>StructTag.Get\<close> reads, and its value as
  \<open>fmt.Sprintf("%v", ...)\<close> renders it.
\<close>

record StructField =
  Name :: string
  exported :: bool
  Tag :: "(string \<times> string) list"
  rendered :: string

text \<open>\<open>StructTag.Get\<close>: the value of the first pair with that key, the empty string
  when there is none.\<close>

definition Get :: "(string \<times> string) list \<Rightarrow> string \<Rightarrow> string" where
  "Get tag key = (case map_of tag key of None \<Rightarrow> '''' | Some v \<Rightarrow> v)"

text \<open>
  A typed Go value: a struct, a pointer (nil, or to a value), or a value of any other
  kind, of which only the rendering is kept. The argument of \<open>ValidateStruct\<close> has type
  \<open>interface{}\<close>: \<open>None\<close> is the nil interface.
\<close>

datatype go_value =
    Scalar string
  | Struct "StructField list"
  | Pointer "go_value option"

datatype Kind = Invalid | Ptr | StructKind | OtherKind

text \<open>A \<open>reflect.Value\<close>; \<open>None\<close> is the zero Value, which \<open>reflect.ValueOf(nil)\<close>
  and \<open>Elem\<close> of a nil pointer return.\<close>

type_synonym Value = "go_value option"

definition ValueOf :: "go_value option \<Rightarrow> Value" where
  "ValueOf s = s"

fun Kind_of :: "Value \<Rightarrow> Kind" where
  "Kind_of None = Invalid"
| "Kind_of (Some (Scalar _)) = OtherKind"
| "Kind_of (Some (Struct _)) = StructKind"
| "Kind_of (Some (Pointer _)) = Ptr"

text \<open>\<open>Value.Elem\<close>, called on pointers only.\<close>

fun Elem :: "Value \<Rightarrow> Value" where
  "Elem (Some (Pointer p)) = p"
| "Elem v = v"

fun fields_of :: "Value \<Rightarrow> StructField list" where
  "fields_of (Some (Struct fs)) = fs"
| "fields_of _ = []"

section \<open>ValidateStruct\<close>

record ValidateError =
  Errors :: "(string, string list) mapping"
  Message :: string

datatype panic = Panic string

text \<open>
  The variables of the loop over the fields. \<open>invoked\<close> is not in the source: it logs
  every validator call (rule name, value, parameter) in the order the calls are made.
\<close>

record loop_state =
  validationErrors :: "(string, string list) mapping"
  firstErrorMessage :: string
  invoked :: "(string \<times> string \<times> string) list"

text \<open>
  The body of the loop over the rules of one field:
  \<^verbatim>\<open>
  ruleName, param := parseRule(rule)
  if validator, exists := validators[ruleName]; exists {
      if errMsg := validator(fieldValueStr, param); errMsg != "" {
          validationErrors[fieldName] = append(validationErrors[fieldName], errMsg)
          if firstErrorMessage == "" { firstErrorMessage = errMsg }
      }
  }
  \<close>
\<close>

definition apply_rule ::
  "registry \<Rightarrow> string \<Rightarrow> string \<Rightarrow> string \<Rightarrow> loop_state \<Rightarrow> loop_state" where
  "apply_rule validators fieldName fieldValueStr rule st =
     (let (ruleName, param) = parseRule rule
      in case validators ruleName of
           None \<Rightarrow> st
         | Some validator \<Rightarrow>
             (let errMsg = validator fieldValueStr param;
                  st1 = st\<lparr>invoked := invoked st @ [(ruleName, fieldValueStr, param)]\<rparr>
              in if errMsg \<noteq> ''''
                 then st1\<lparr>validationErrors :=
                            Mapping.update fieldName
                              (Mapping.lookup_default [] (validationErrors st) fieldName @ [errMsg])
                              (validationErrors st),
                          firstErrorMessage :=
                            (if firstErrorMessage st = '''' then errMsg
                             else firstErrorMessage st)\<rparr>
                 else st1))"

primrec rules_loop ::
  "registry \<Rightarrow> string \<Rightarrow> string \<Rightarrow> string list \<Rightarrow> loop_state \<Rightarrow> loop_state" where
  "rules_loop validators fieldName fieldValueStr [] st = st"
| "rules_loop validators fieldName fieldValueStr (rule # rules) st =
     rules_loop validators fieldName fieldValueStr rules
       (apply_rule validators fieldName fieldValueStr rule st)"

text \<open>
  The body of the loop over the fields. \<open>field.Interface()\<close> panics on a field that is
  not exported; it is reached only when the field has a non-empty purify tag.
\<close>

definition field_step :: "registry \<Rightarrow> StructField \<Rightarrow> loop_state \<Rightarrow> panic + loop_state" where
  "field_step validators fieldType st =
     (let jsonTag = Get (Tag fieldType) ''json'';
          jsonTag = (if jsonTag = '''' \<or> jsonTag = ''-'' then Name fieldType else jsonTag);
          gformTag = Get (Tag fieldType) ''purify''
      in if gformTag = '''' then Inr st
         else (let fieldName = jsonTag;
                   rules = Split gformTag CHR ''|''
               in if \<not> exported fieldType
                  then Inl (Panic ''reflect.Value.Interface: cannot return value obtained from unexported field or method'')
                  else Inr (rules_loop validators fieldName (rendered fieldType) rules st)))"

primrec fields_loop ::
  "registry \<Rightarrow> StructField list \<Rightarrow> loop_state \<Rightarrow> panic + loop_state" where
  "fields_loop validators [] st = Inr st"
| "fields_loop validators (f # fs) st =
     (case field_step validators f st of
        Inl p \<Rightarrow> Inl p
      | Inr st' \<Rightarrow> fields_loop validators fs st')"

definition expected_a_struct :: ValidateError where
  "expected_a_struct =
     \<lparr>Errors = Mapping.update '''' [''expected a struct''] Mapping.empty,
      Message = ''expected a struct''\<rparr>"

text \<open>\<open>ValidateStruct\<close> with the log of the validator calls it made.\<close>

definition ValidateStruct_traced ::
  "registry \<Rightarrow> go_value option \<Rightarrow>
     panic + (ValidateError option \<times> (string \<times> string \<times> string) list)" where
  "ValidateStruct_traced validators s =
     (let v = ValueOf s;
          v = (if Kind_of v = Ptr then Elem v else v)
      in if Kind_of v \<noteq> StructKind then Inr (Some expected_a_struct, [])
         else (case fields_loop validators (fields_of v)
                      \<lparr>validationErrors = Mapping.empty, firstErrorMessage = '''',
                       invoked = []\<rparr> of
                 Inl p \<Rightarrow> Inl p
               | Inr st \<Rightarrow>
                   if \<not> Mapping.is_empty (validationErrors st)
                   then Inr (Some \<lparr>Errors = validationErrors st,
                                   Message = firstErrorMessage st\<rparr>, invoked st)
                   else Inr (None, invoked st)))"

text \<open>\<open>ValidateStruct\<close>: a panic, or the pointer it returns (\<open>None\<close> is nil).\<close>

definition ValidateStruct :: "registry \<Rightarrow> go_value option \<Rightarrow> panic + ValidateError option" where
  "ValidateStruct validators s = map_sum id fst (ValidateStruct_traced validators s)"

section \<open>The built-in length validators\<close>

text \<open>
  \<open>strconv.Atoi\<close> of the Go standard library, for a 64-bit \<open>int\<close>. It returns a value
  and an error; the validators keep the value and drop the error.
\<close>

datatype NumError = ErrSyntax | ErrRange

text \<open>The fast path of \<open>Atoi\<close>, for 1 to 18 bytes:
  \<^verbatim>\<open>
  for _, ch := range []byte(s) {
      ch -= '0'
      if ch > 9 { return 0, syntaxError(fnAtoi, s0) }
      n = n*10 + int(ch)
  }
  \<close>
  \<open>None\<close> is the syntax error. The byte subtraction wraps.\<close>

fun atoi_digits :: "string \<Rightarrow> int \<Rightarrow> int option" where
  "atoi_digits [] n = Some n"
| "atoi_digits (c # s) n =
     (let ch = (of_char c + 256 - 48) mod 256 :: int
      in if ch > 9 then None else atoi_digits s (n * 10 + ch))"

text \<open>The loop of \<open>ParseUint(s, 10, 0)\<close> on unsigned 64-bit numbers (here integers from 0
  to \<open>2 ^ 64 - 1\<close>):
  \<^verbatim>\<open>
  for _, c := range []byte(s) {
      var d byte
      switch {
      case '0' <= c && c <= '9': d = c - '0'
      case 'a' <= lower(c) && lower(c) <= 'z': d = lower(c) - 'a' + 10
      default: return 0, syntaxError(fnParseUint, s0)
      }
      if d >= byte(base) { return 0, syntaxError(fnParseUint, s0) }
      if n >= cutoff { return maxVal, rangeError(fnParseUint, s0) }
      n *= uint64(base)
      n1 := n + uint64(d)
      if n1 < n || n1 > maxVal { return maxVal, rangeError(fnParseUint, s0) }
      n = n1
  }
  return n, nil
  \<close>
  In base 10 a letter is a digit of value 10 or more, so it ends in the same syntax error
  as any other byte that is not a decimal digit. The addition wraps at \<open>2 ^ 64\<close>.\<close>

definition maxVal :: int where
  "maxVal = 2 ^ 64 - 1"

definition cutoff :: int where
  "cutoff = maxVal div 10 + 1"

fun ParseUint_loop :: "string \<Rightarrow> int \<Rightarrow> int \<times> NumError option" where
  "ParseUint_loop [] n = (n, None)"
| "ParseUint_loop (c # s) n =
     (if \<not> (48 \<le> (of_char c :: int) \<and> (of_char c :: int) \<le> 57) then (0, Some ErrSyntax)
      else (let d = (of_char c :: int) - 48
            in if n \<ge> cutoff then (maxVal, Some ErrRange)
               else (let n' = n * 10;
                         n1 = (n' + d) mod 2 ^ 64
                     in if n1 < n' \<or> n1 > maxVal then (maxVal, Some ErrRange)
                        else ParseUint_loop s n1)))"

definition ParseUint :: "string \<Rightarrow> int \<times> NumError option" where
  "ParseUint s = (if s = [] then (0, Some ErrSyntax) else ParseUint_loop s 0)"

text \<open>\<open>ParseInt(s, 10, 0)\<close>: the sign, then \<open>ParseUint\<close>; a syntax error gives 0, a
  value out of range gives the nearest bound with a range error.\<close>

definition ParseInt :: "string \<Rightarrow> int \<times> NumError option" where
  "ParseInt s =
     (if s = [] then (0, Some ErrSyntax)
      else (let neg = (hd s = CHR ''-'');
                s' = (if hd s = CHR ''+'' \<or> hd s = CHR ''-'' then tl s else s);
                (un, err) = ParseUint s'
            in if err \<noteq> None \<and> err \<noteq> Some ErrRange then (0, err)
               else if \<not> neg \<and> un \<ge> 2 ^ 63 then (2 ^ 63 - 1, Some ErrRange)
               else if neg \<and> un > 2 ^ 63 then (- (2 ^ 63), Some ErrRange)
               else (if neg then - un else un, None)))"

definition Atoi :: "string \<Rightarrow> int \<times> NumError option" where
  "Atoi s =
     (let sLen = length s
      in if 0 < sLen \<and> sLen < 19
         then (let signed = (hd s = CHR ''-'' \<or> hd s = CHR ''+'');
                   s' = (if signed then tl s else s)
               in if signed \<and> length s' < 1 then (0, Some ErrSyntax)
                  else (case atoi_digits s' 0 of
                          None \<Rightarrow> (0, Some ErrSyntax)
                        | Some n \<Rightarrow> (if hd s = CHR ''-'' then - n else n, None)))
         else ParseInt s)"

text \<open>
  \<^verbatim>\<open>
  maxLength, _ := strconv.Atoi(param)
  if len(fieldValue) < maxLength { return fmt.Sprintf("min length is %s", param) }
  return ""
  \<close>
\<close>

definition Min_validator :: ValidatorFunc where
  "Min_validator fieldValue param =
     (let maxLength = fst (Atoi param)
      in if int (length fieldValue) < maxLength then ''min length is '' @ param else '''')"

definition Max_validator :: ValidatorFunc where
  "Max_validator fieldValue param =
     (let maxLength = fst (Atoi param)
      in if int (length fieldValue) > maxLength then ''max length is '' @ param else '''')"

definition Required :: ValidatorFunc where
  "Required fieldValue param = (if fieldValue = '''' then ''required'' else '''')"

section \<open>The package as a state machine\<close>

text \<open>
  The only state of the package is the variable \<open>validators\<close>. A call either registers
  a validator, which writes the variable, or validates a value, which only reads it.
\<close>

datatype call = Register string ValidatorFunc | Validate "go_value option"

datatype outcome = Registered | Validated "panic + ValidateError option"

fun exec :: "registry \<Rightarrow> call \<Rightarrow> outcome \<times> registry" where
  "exec validators (Register name fn) = (Registered, RegisterValidator name fn validators)"
| "exec validators (Validate s) = (Validated (ValidateStruct validators s), validators)"

fun run :: "registry \<Rightarrow> call list \<Rightarrow> outcome list \<times> registry" where
  "run validators [] = ([], validators)"
| "run validators (c # cs) =
     (let (out, validators') = exec validators c;
          (outs, validators'') = run validators' cs
      in (out # outs, validators''))"

section \<open>Validators with side effects\<close>

text \<open>
  A Go function can read and write state outside its arguments. Here a validator takes
  the state of the world and returns its message with the new state, and the loops of
  \<open>ValidateStruct\<close> pass that state from one validator call to the next, in the order
  in which the source makes the calls. The definitions follow purify.go line by line, as
  the ones above do.
\<close>

type_synonym 'w EffectfulFunc = "string \<Rightarrow> string \<Rightarrow> 'w \<Rightarrow> string \<times> 'w"

definition apply_rule_fx ::
  "(string \<rightharpoonup> 'w EffectfulFunc) \<Rightarrow> string \<Rightarrow> string \<Rightarrow> string \<Rightarrow> loop_state \<Rightarrow> 'w \<Rightarrow>
     loop_state \<times> 'w" where
  "apply_rule_fx validators fieldName fieldValueStr rule st w =
     (let (ruleName, param) = parseRule rule
      in case validators ruleName of
           None \<Rightarrow> (st, w)
         | Some validator \<Rightarrow>
             (let (errMsg, w') = validator fieldValueStr param w;
                  st1 = st\<lparr>invoked := invoked st @ [(ruleName, fieldValueStr, param)]\<rparr>
              in (if errMsg \<noteq> ''''
                  then st1\<lparr>validationErrors :=
                             Mapping.update fieldName
                               (Mapping.lookup_default [] (validationErrors st) fieldName @ [errMsg])
                               (validationErrors st),
                           firstErrorMessage :=
                             (if firstErrorMessage st = '''' then errMsg
                              else firstErrorMessage st)\<rparr>
                  else st1, w')))"

fun rules_loop_fx ::
  "(string \<rightharpoonup> 'w EffectfulFunc) \<Rightarrow> string \<Rightarrow> string \<Rightarrow> string list \<Rightarrow> loop_state \<Rightarrow> 'w \<Rightarrow>
     loop_state \<times> 'w" where
  "rules_loop_fx validators fieldName fieldValueStr [] st w = (st, w)"
| "rules_loop_fx validators fieldName fieldValueStr (rule # rules) st w =
     (case apply_rule_fx validators fieldName fieldValueStr rule st w of
        (st', w') \<Rightarrow> rules_loop_fx validators fieldName fieldValueStr rules st' w')"

definition field_step_fx ::
  "(string \<rightharpoonup> 'w EffectfulFunc) \<Rightarrow> StructField \<Rightarrow> loop_state \<Rightarrow> 'w \<Rightarrow>
     (panic + loop_state) \<times> 'w" where
  "field_step_fx validators fieldType st w =
     (let jsonTag = Get (Tag fieldType) ''json'';
          jsonTag = (if jsonTag = '''' \<or> jsonTag = ''-'' then Name fieldType else jsonTag);
          gformTag = Get (Tag fieldType) ''purify''
      in if gformTag = '''' then (Inr st, w)
         else (let fieldName = jsonTag;
                   rules = Split gformTag CHR ''|''
               in if \<not> exported fieldType
                  then (Inl (Panic ''reflect.Value.Interface: cannot return value obtained from unexported field or method''), w)
                  else (case rules_loop_fx validators fieldName (rendered fieldType) rules st w of
                          (st', w') \<Rightarrow> (Inr st', w'))))"

fun fields_loop_fx ::
  "(string \<rightharpoonup> 'w EffectfulFunc) \<Rightarrow> StructField list \<Rightarrow> loop_state \<Rightarrow> 'w \<Rightarrow>
     (panic + loop_state) \<times> 'w" where
  "fields_loop_fx validators [] st w = (Inr st, w)"
| "fields_loop_fx validators (f # fs) st w =
     (case field_step_fx validators f st w of
        (Inl p, w') \<Rightarrow> (Inl p, w')
      | (Inr st', w') \<Rightarrow> fields_loop_fx validators fs st' w')"

definition ValidateStruct_fx ::
  "(string \<rightharpoonup> 'w EffectfulFunc) \<Rightarrow> go_value option \<Rightarrow> 'w \<Rightarrow>
     (panic + ValidateError option) \<times> 'w" where
  "ValidateStruct_fx validators s w =
     (let v = ValueOf s;
          v = (if Kind_of v = Ptr then Elem v else v)
      in if Kind_of v \<noteq> StructKind then (Inr (Some expected_a_struct), w)
         else (case fields_loop_fx validators (fields_of v)
                      \<lparr>validationErrors = Mapping.empty, firstErrorMessage = '''',
                       invoked = []\<rparr> w of
                 (Inl p, w') \<Rightarrow> (Inl p, w')
               | (Inr st, w') \<Rightarrow>
                   if \<not> Mapping.is_empty (validationErrors st)
                   then (Inr (Some \<lparr>Errors = validationErrors st,
                                    Message = firstErrorMessage st\<rparr>), w')
                   else (Inr None, w')))"

text \<open>A validator is pure when it leaves the world as it is and its message does not
  depend on the world.\<close>

definition pure_validator :: "'w EffectfulFunc \<Rightarrow> bool" where
  "pure_validator fn \<longleftrightarrow>
     (\<forall>v p w. snd (fn v p w) = w) \<and> (\<forall>v p w w'. fst (fn v p w) = fst (fn v p w'))"

text \<open>The registry of the functions that the validators compute in a given world.\<close>

definition pure_part :: "'w \<Rightarrow> (string \<rightharpoonup> 'w EffectfulFunc) \<Rightarrow> registry" where
  "pure_part w0 validators =
     (\<lambda>name. map_option (\<lambda>fn v p. fst (fn v p w0)) (validators name))"

text \<open>A validator that is not pure: it counts its calls in the world and reports a
  violation from its second call on.\<close>

definition counting_validator :: "nat EffectfulFunc" where
  "counting_validator v p w = (if w = 0 then '''' else ''seen before'', Suc w)"

section \<open>The report in the words of the specification\<close>

text \<open>The rule specification of a field: its purify tag, empty when the tag is absent.\<close>

definition rule_spec :: "StructField \<Rightarrow> string" where
  "rule_spec f = (case map_of (Tag f) ''purify'' of None \<Rightarrow> '''' | Some t \<Rightarrow> t)"

text \<open>The display name of a field: the json tag when it is present, non-empty and not
  the placeholder \<open>-\<close>; otherwise the declared name.\<close>

definition display_name :: "StructField \<Rightarrow> string" where
  "display_name f =
     (case map_of (Tag f) ''json'' of
        None \<Rightarrow> Name f
      | Some t \<Rightarrow> if t \<noteq> '''' \<and> t \<noteq> ''-'' then t else Name f)"

text \<open>The message of one rule on a value: what the registered validator returns, and no
  message for a name that is not registered.\<close>

definition rule_message :: "registry \<Rightarrow> string \<Rightarrow> string \<Rightarrow> string" where
  "rule_message validators val rule =
     (case validators (fst (parseRule rule)) of
        None \<Rightarrow> ''''
      | Some validator \<Rightarrow> validator val (snd (parseRule rule)))"

text \<open>The rules of a field, left to right; none for an empty specification.\<close>

definition field_rules :: "StructField \<Rightarrow> string list" where
  "field_rules f = (if rule_spec f = '''' then [] else Split (rule_spec f) CHR ''|'')"

text \<open>The non-empty messages of a list of rules on a value, in the order of the rules,
  and those of a field.\<close>

definition rule_messages :: "registry \<Rightarrow> string \<Rightarrow> string list \<Rightarrow> string list" where
  "rule_messages validators val rules =
     filter (\<lambda>m. m \<noteq> '''') (map (rule_message validators val) rules)"

definition field_messages :: "registry \<Rightarrow> StructField \<Rightarrow> string list" where
  "field_messages validators f = rule_messages validators (rendered f) (field_rules f)"

text \<open>The non-empty messages of the whole record in field-then-rule order, and those of
  the fields with a given display name.\<close>

definition all_messages :: "registry \<Rightarrow> StructField list \<Rightarrow> string list" where
  "all_messages validators fs = concat (map (field_messages validators) fs)"

definition messages_at :: "registry \<Rightarrow> StructField list \<Rightarrow> string \<Rightarrow> string list" where
  "messages_at validators fs k =
     concat (map (field_messages validators) (filter (\<lambda>f. display_name f = k) fs))"

text \<open>A value is struct-shaped when it is a struct or a non-nil pointer to a struct.\<close>

fun struct_shaped :: "go_value option \<Rightarrow> bool" where
  "struct_shaped (Some (Struct fs)) = True"
| "struct_shaped (Some (Pointer (Some (Struct fs)))) = True"
| "struct_shaped _ = False"

text \<open>The name in a json tag, as Go's encoding/json reads it: what stands before the
  first comma; the options follow the comma.\<close>

definition json_name :: "string \<Rightarrow> string" where
  "json_name tag = takeWhile (\<lambda>c. c \<noteq> CHR '','') tag"

text \<open>A decimal integer as it is written: one or more decimal digits, after an optional
  sign.\<close>

definition is_digit :: "char \<Rightarrow> bool" where
  "is_digit c \<longleftrightarrow> 48 \<le> (of_char c :: int) \<and> (of_char c :: int) \<le> 57"

definition decimal_literal :: "string \<Rightarrow> bool" where
  "decimal_literal s =
     (case s of
        [] \<Rightarrow> False
      | c # cs \<Rightarrow>
          if c = CHR ''-'' \<or> c = CHR ''+'' then cs \<noteq> [] \<and> list_all is_digit cs
          else list_all is_digit s)"

section \<open>A registry and a record to run the definitions on\<close>

definition example_validators :: registry where
  "example_validators =
     RegisterValidator ''max'' Max_validator
       (RegisterValidator ''min'' Min_validator
          (RegisterValidator ''required'' Required Map.empty))"

definition example_record :: "StructField list" where
  "example_record =
     [\<lparr>Name = ''Name'', exported = True,
       Tag = [(''json'', ''name''), (''purify'', ''required|min(3)|bogus(1)'')], rendered = ''''\<rparr>,
      \<lparr>Name = ''Email'', exported = True, Tag = [(''purify'', ''required'')], rendered = ''''\<rparr>,
      \<lparr>Name = ''Age'', exported = True,
       Tag = [(''json'', ''-''), (''purify'', ''max(1)'')], rendered = ''25''\<rparr>,
      \<lparr>Name = ''note'', exported = False, Tag = [(''json'', ''note'')], rendered = ''x''\<rparr>]"

section \<open>Strings and the rule grammar: proofs\<close>

lemma Index_absent: "c \<notin> set s \<Longrightarrow> Index s c = -1"
  by (induction s) auto

lemma Index_present:
  "c \<in> set s \<Longrightarrow>
     0 \<le> Index s c \<and> nat (Index s c) < length s \<and> s ! nat (Index s c) = c \<and>
     c \<notin> set (take (nat (Index s c)) s)"
proof (induction s)
  case Nil
  then show ?case by simp
next
  case (Cons x xs)
  show ?case
  proof (cases "x = c")
    case True
    then show ?thesis by simp
  next
    case False
    with Cons.prems have "c \<in> set xs" by simp
    from Cons.IH [OF this] False show ?thesis
      by (simp add: Let_def nat_add_distrib)
  qed
qed

lemma Index_split:
  assumes "c \<in> set s"
  shows "s = take (nat (Index s c)) s @ c # drop (nat (Index s c + 1)) s"
proof -
  from Index_present [OF assms]
  have i: "0 \<le> Index s c" "nat (Index s c) < length s" "s ! nat (Index s c) = c"
    by simp_all
  from id_take_nth_drop [OF i(2)] i(1) i(3) show ?thesis
    by (simp add: nat_add_distrib)
qed

lemma takeWhile_same:
  "takeWhile (\<lambda>x. x = c) xs = replicate (length (takeWhile (\<lambda>x. x = c) xs)) c"
  by (induction xs) auto

lemma TrimRight_shape:
  "\<exists>k. t = TrimRight t [c] @ replicate k c \<and>
       (TrimRight t [c] = [] \<or> last (TrimRight t [c]) \<noteq> c)"
proof -
  let ?tw = "takeWhile (\<lambda>x. x = c) (rev t)" and ?dw = "dropWhile (\<lambda>x. x = c) (rev t)"
  have "rev t = ?tw @ ?dw" by simp
  then have "t = rev ?dw @ rev ?tw" by (metis rev_append rev_rev_ident)
  moreover have "rev ?tw = replicate (length ?tw) c"
    by (metis takeWhile_same rev_replicate)
  moreover have "?dw = [] \<or> hd ?dw \<noteq> c"
    using hd_dropWhile [of "\<lambda>x. x = c" "rev t"] by blast
  then have "rev ?dw = [] \<or> last (rev ?dw) \<noteq> c"
    by (simp add: last_rev)
  moreover have "TrimRight t [c] = rev ?dw"
    by (simp add: TrimRight_def)
  ultimately show ?thesis by metis
qed

text \<open>
  C2. A segment without \<open>(\<close> is the rule name, with the empty parameter. A segment with
  \<open>(\<close> reads as name, \<open>(\<close>, parameter and then some number of \<open>)\<close> (none when the closing
  parenthesis is missing), where the name has no \<open>(\<close> and the parameter does not end in
  \<open>)\<close>: the name is what stands before the first \<open>(\<close>, the parameter what stands after
  it with all trailing \<open>)\<close> stripped. The specification \<open>min(3)|max(20)\<close> gives the two
  rules \<open>(min, 3)\<close> and \<open>(max, 20)\<close>, in that order.
\<close>

theorem parseRule_segment:
  "(CHR ''('' \<notin> set seg \<longrightarrow> parseRule seg = (seg, '''')) \<and>
   (CHR ''('' \<in> set seg \<longrightarrow>
      (\<exists>k. seg = fst (parseRule seg) @ ''('' @ snd (parseRule seg) @ replicate k CHR '')'') \<and>
      CHR ''('' \<notin> set (fst (parseRule seg)) \<and>
      (snd (parseRule seg) = [] \<or> last (snd (parseRule seg)) \<noteq> CHR '')'')) \<and>
   map parseRule (Split ''min(3)|max(20)'' CHR ''|'') = [(''min'', ''3''), (''max'', ''20'')]"
proof (intro conjI impI)
  assume "CHR ''('' \<notin> set seg"
  then show "parseRule seg = (seg, '''')"
    by (simp add: parseRule_def Index_absent)
next
  assume h: "CHR ''('' \<in> set seg"
  let ?i = "Index seg CHR ''(''"
  let ?t = "drop (nat (?i + 1)) seg"
  from Index_present [OF h] have i: "?i \<noteq> -1" by simp
  then have n: "fst (parseRule seg) = take (nat ?i) seg"
    and p: "snd (parseRule seg) = TrimRight ?t '')''"
    by (simp_all add: parseRule_def Let_def)
  from TrimRight_shape [of ?t "CHR '')''"] obtain k where
    k: "?t = TrimRight ?t '')'' @ replicate k CHR '')''"
    and l: "TrimRight ?t '')'' = [] \<or> last (TrimRight ?t '')'') \<noteq> CHR '')''"
    by blast
  from Index_split [OF h] k
  have "seg = take (nat ?i) seg @ ''('' @ TrimRight ?t '')'' @ replicate k CHR '')''"
    by simp
  with n p
  show "\<exists>k. seg = fst (parseRule seg) @ ''('' @ snd (parseRule seg) @ replicate k CHR '')''"
    by metis
  from Index_present [OF h] n show "CHR ''('' \<notin> set (fst (parseRule seg))" by simp
  from l p show "snd (parseRule seg) = [] \<or> last (snd (parseRule seg)) \<noteq> CHR '')''" by simp
next
  show "map parseRule (Split ''min(3)|max(20)'' CHR ''|'') = [(''min'', ''3''), (''max'', ''20'')]"
    by (simp add: parseRule_def TrimRight_def)
qed

theorem parseRule_segment_witness:
  "parseRule ''email'' = (''email'', '''') \<and>
   (\<exists>k. ''min(3'' =
      fst (parseRule ''min(3'') @ ''('' @ snd (parseRule ''min(3'') @ replicate k CHR '')'')"
proof -
  have a: "CHR ''('' \<notin> set ''email''" by simp
  have b: "CHR ''('' \<in> set ''min(3''" by simp
  from a parseRule_segment [of "''email''"] have "parseRule ''email'' = (''email'', '''')"
    by blast
  moreover from b parseRule_segment [of "''min(3''"]
  have "\<exists>k. ''min(3'' =
      fst (parseRule ''min(3'') @ ''('' @ snd (parseRule ''min(3'') @ replicate k CHR '')''"
    by blast
  ultimately show ?thesis by blast
qed

section \<open>The loops of ValidateStruct\<close>

lemma apply_rule_unknown:
  "validators (fst (parseRule rule)) = None \<Longrightarrow>
     apply_rule validators fieldName fieldValueStr rule st = st"
  by (cases "parseRule rule") (simp add: apply_rule_def)

lemma apply_rule_lookup:
  "Mapping.lookup (validationErrors (apply_rule validators k v rule st)) k' =
     (if k' = k \<and> rule_message validators v rule \<noteq> ''''
      then Some (Mapping.lookup_default [] (validationErrors st) k @
                 [rule_message validators v rule])
      else Mapping.lookup (validationErrors st) k')"
  by (cases "parseRule rule")
     (auto simp: apply_rule_def rule_message_def Let_def Mapping.lookup_update'
           split: option.splits)

lemma apply_rule_lookup_default:
  "Mapping.lookup_default [] (validationErrors (apply_rule validators k v rule st)) k' =
     (if k' = k \<and> rule_message validators v rule \<noteq> ''''
      then Mapping.lookup_default [] (validationErrors st) k @ [rule_message validators v rule]
      else Mapping.lookup_default [] (validationErrors st) k')"
  by (simp add: Mapping.lookup_default_def
                  [of _ "validationErrors (apply_rule validators k v rule st)"]
        apply_rule_lookup)
     (simp add: Mapping.lookup_default_def)

lemma apply_rule_first:
  "firstErrorMessage (apply_rule validators k v rule st) =
     (if firstErrorMessage st = '''' then rule_message validators v rule
      else firstErrorMessage st)"
  by (cases "parseRule rule")
     (auto simp: apply_rule_def rule_message_def Let_def split: option.splits)

lemma rules_loop_lookup:
  "Mapping.lookup (validationErrors (rules_loop validators k v rules st)) k' =
     (if k' = k \<and> rule_messages validators v rules \<noteq> []
      then Some (Mapping.lookup_default [] (validationErrors st) k @
                 rule_messages validators v rules)
      else Mapping.lookup (validationErrors st) k')"
proof (induction rules arbitrary: st)
  case Nil
  then show ?case by (simp add: rule_messages_def)
next
  case (Cons r rs)
  show ?case
    by (auto simp: Cons.IH apply_rule_lookup apply_rule_lookup_default rule_messages_def)
qed

lemma rules_loop_lookup_default:
  "Mapping.lookup_default [] (validationErrors (rules_loop validators k v rules st)) k' =
     (if k' = k
      then Mapping.lookup_default [] (validationErrors st) k @ rule_messages validators v rules
      else Mapping.lookup_default [] (validationErrors st) k')"
  by (simp add: Mapping.lookup_default_def
                  [of _ "validationErrors (rules_loop validators k v rules st)"]
        rules_loop_lookup)
     (simp add: Mapping.lookup_default_def)

lemma rules_loop_first:
  "firstErrorMessage (rules_loop validators k v rules st) =
     (if firstErrorMessage st = ''''
      then (case rule_messages validators v rules of [] \<Rightarrow> '''' | m # _ \<Rightarrow> m)
      else firstErrorMessage st)"
proof (induction rules arbitrary: st)
  case Nil
  then show ?case by (simp add: rule_messages_def)
next
  case (Cons r rs)
  show ?case
    by (simp add: Cons.IH apply_rule_first rule_messages_def)
qed

lemma rule_messages_hd: "rule_messages validators v rules = m # ms \<Longrightarrow> m \<noteq> []"
  unfolding rule_messages_def by (metis (mono_tags, lifting) Cons_eq_filterD)

lemma rules_loop_known:
  "rules_loop validators k v rules st =
     rules_loop validators k v (filter (\<lambda>r. validators (fst (parseRule r)) \<noteq> None) rules) st"
  by (induction rules arbitrary: st) (auto simp: apply_rule_unknown)

lemma rules_loop_unknown:
  "\<forall>r \<in> set rules. validators (fst (parseRule r)) = None \<Longrightarrow>
     rules_loop validators k v rules st = st"
  by (induction rules arbitrary: st) (auto simp: apply_rule_unknown)

lemma Get_purify: "Get (Tag f) ''purify'' = rule_spec f"
  by (simp add: Get_def rule_spec_def)

lemma Get_json:
  "(if Get (Tag f) ''json'' = '''' \<or> Get (Tag f) ''json'' = ''-'' then Name f
    else Get (Tag f) ''json'') = display_name f"
  by (simp add: Get_def display_name_def split: option.splits)

lemma field_step_skip: "rule_spec f = '''' \<Longrightarrow> field_step validators f st = Inr st"
  by (simp add: field_step_def Get_purify Let_def)

lemma field_step_panic:
  "rule_spec f \<noteq> '''' \<Longrightarrow> \<not> exported f \<Longrightarrow> \<exists>p. field_step validators f st = Inl p"
  by (simp add: field_step_def Get_purify Let_def)

lemma field_step_run:
  "rule_spec f \<noteq> '''' \<longrightarrow> exported f \<Longrightarrow>
     field_step validators f st =
       Inr (rules_loop validators (display_name f) (rendered f) (field_rules f) st)"
  by (auto simp: field_step_def Get_purify Get_json Let_def field_rules_def)

lemma messages_at_Cons:
  "messages_at validators (f # fs) k =
     (if display_name f = k then field_messages validators f else []) @
     messages_at validators fs k"
  by (simp add: messages_at_def)

lemma fields_loop_run:
  "\<forall>f \<in> set fs. rule_spec f \<noteq> '''' \<longrightarrow> exported f \<Longrightarrow>
     \<exists>st'. fields_loop validators fs st = Inr st' \<and>
       (\<forall>k. Mapping.lookup (validationErrors st') k =
              (if messages_at validators fs k = [] then Mapping.lookup (validationErrors st) k
               else Some (Mapping.lookup_default [] (validationErrors st) k @
                          messages_at validators fs k))) \<and>
       firstErrorMessage st' =
         (if firstErrorMessage st = ''''
          then (case all_messages validators fs of [] \<Rightarrow> '''' | m # _ \<Rightarrow> m)
          else firstErrorMessage st)"
proof (induction fs arbitrary: st)
  case Nil
  then show ?case by (simp add: messages_at_def all_messages_def)
next
  case (Cons f fs)
  let ?st1 = "rules_loop validators (display_name f) (rendered f) (field_rules f) st"
  from Cons.prems have f: "rule_spec f \<noteq> '''' \<longrightarrow> exported f"
    and fs: "\<forall>f \<in> set fs. rule_spec f \<noteq> '''' \<longrightarrow> exported f" by simp_all
  from Cons.IH [OF fs, of ?st1] obtain st' where
    run: "fields_loop validators fs ?st1 = Inr st'"
    and look: "\<And>k. Mapping.lookup (validationErrors st') k =
              (if messages_at validators fs k = [] then Mapping.lookup (validationErrors ?st1) k
               else Some (Mapping.lookup_default [] (validationErrors ?st1) k @
                          messages_at validators fs k))"
    and first: "firstErrorMessage st' =
         (if firstErrorMessage ?st1 = ''''
          then (case all_messages validators fs of [] \<Rightarrow> '''' | m # _ \<Rightarrow> m)
          else firstErrorMessage ?st1)"
    by blast
  have "fields_loop validators (f # fs) st = Inr st'"
    by (simp add: field_step_run [OF f] run)
  moreover have "Mapping.lookup (validationErrors st') k =
              (if messages_at validators (f # fs) k = []
               then Mapping.lookup (validationErrors st) k
               else Some (Mapping.lookup_default [] (validationErrors st) k @
                          messages_at validators (f # fs) k))" for k
    by (auto simp: look messages_at_Cons rules_loop_lookup rules_loop_lookup_default
          field_messages_def)
  moreover have "firstErrorMessage st' =
         (if firstErrorMessage st = ''''
          then (case all_messages validators (f # fs) of [] \<Rightarrow> '''' | m # _ \<Rightarrow> m)
          else firstErrorMessage st)"
    by (auto simp: first rules_loop_first all_messages_def field_messages_def
          split: list.splits dest: rule_messages_hd)
  ultimately show ?case by blast
qed

lemma fields_loop_exported:
  "fields_loop validators fs st = Inr st' \<Longrightarrow>
     \<forall>f \<in> set fs. rule_spec f \<noteq> '''' \<longrightarrow> exported f"
proof (induction fs arbitrary: st)
  case Nil
  then show ?case by simp
next
  case (Cons f fs)
  from Cons.prems obtain st1 where a: "field_step validators f st = Inr st1"
    and b: "fields_loop validators fs st1 = Inr st'"
    by (auto split: sum.splits)
  from a have "rule_spec f \<noteq> '''' \<longrightarrow> exported f"
    using field_step_panic [of f validators st] by auto
  with Cons.IH [OF b] show ?case by simp
qed

lemma fields_loop_skip:
  "\<forall>f \<in> set fs. rule_spec f = '''' \<Longrightarrow> fields_loop validators fs st = Inr st"
  by (induction fs) (simp_all add: field_step_skip)

lemma fields_loop_unknown:
  "\<forall>f \<in> set fs. (rule_spec f \<noteq> '''' \<longrightarrow> exported f) \<and>
        (\<forall>r \<in> set (field_rules f). validators (fst (parseRule r)) = None) \<Longrightarrow>
     fields_loop validators fs st = Inr st"
  by (induction fs) (simp_all add: field_step_run rules_loop_unknown)

section \<open>The report of ValidateStruct\<close>

lemma is_empty_lookup: "Mapping.is_empty m \<longleftrightarrow> (\<forall>k. Mapping.lookup m k = None)"
  by (auto simp: Mapping.is_empty_def keys_dom_lookup)

lemma all_messages_empty:
  "all_messages validators fs = [] \<longleftrightarrow> (\<forall>k. messages_at validators fs k = [])"
  by (auto simp: all_messages_def messages_at_def)

lemma ValidateStruct_Struct:
  "ValidateStruct_traced validators (Some (Struct fs)) =
     (case fields_loop validators fs
             \<lparr>validationErrors = Mapping.empty, firstErrorMessage = '''', invoked = []\<rparr> of
        Inl p \<Rightarrow> Inl p
      | Inr st \<Rightarrow>
          if \<not> Mapping.is_empty (validationErrors st)
          then Inr (Some \<lparr>Errors = validationErrors st, Message = firstErrorMessage st\<rparr>,
                    invoked st)
          else Inr (None, invoked st))"
  by (simp add: ValidateStruct_traced_def ValueOf_def)

lemma ValidateStruct_Pointer:
  "ValidateStruct_traced validators (Some (Pointer (Some (Struct fs)))) =
     ValidateStruct_traced validators (Some (Struct fs))"
  by (simp add: ValidateStruct_traced_def ValueOf_def)

lemma ValidateStruct_fields:
  assumes "\<forall>f \<in> set fs. rule_spec f \<noteq> '''' \<longrightarrow> exported f"
  shows "(all_messages validators fs = [] \<longrightarrow>
            ValidateStruct validators (Some (Struct fs)) = Inr None) \<and>
         (all_messages validators fs \<noteq> [] \<longrightarrow>
            (\<exists>r. ValidateStruct validators (Some (Struct fs)) = Inr (Some r) \<and>
                 (\<forall>k. Mapping.lookup (Errors r) k =
                        (if messages_at validators fs k = [] then None
                         else Some (messages_at validators fs k))) \<and>
                 Message r = hd (all_messages validators fs)))"
proof -
  let ?st0 = "\<lparr>validationErrors = Mapping.empty, firstErrorMessage = '''', invoked = []\<rparr>"
  from fields_loop_run [OF assms, of validators ?st0] obtain st' where
    run: "fields_loop validators fs ?st0 = Inr st'"
    and look: "\<And>k. Mapping.lookup (validationErrors st') k =
              (if messages_at validators fs k = [] then None
               else Some (messages_at validators fs k))"
    and first: "firstErrorMessage st' =
         (case all_messages validators fs of [] \<Rightarrow> '''' | m # _ \<Rightarrow> m)"
    by (auto simp: Mapping.lookup_default_empty)
  have e: "Mapping.is_empty (validationErrors st') \<longleftrightarrow> all_messages validators fs = []"
    by (simp add: is_empty_lookup look all_messages_empty)
  show ?thesis
  proof (cases "all_messages validators fs = []")
    case True
    with e run show ?thesis
      by (simp add: ValidateStruct_def ValidateStruct_Struct)
  next
    case False
    with e run have "ValidateStruct validators (Some (Struct fs)) =
        Inr (Some \<lparr>Errors = validationErrors st', Message = firstErrorMessage st'\<rparr>)"
      by (simp add: ValidateStruct_def ValidateStruct_Struct)
    moreover from False first have "firstErrorMessage st' = hd (all_messages validators fs)"
      by (simp split: list.splits)
    ultimately show ?thesis using False look by simp
  qed
qed

lemma ValidateStruct_Inr_exported:
  "ValidateStruct validators (Some (Struct fs)) = Inr res \<Longrightarrow>
     \<forall>f \<in> set fs. rule_spec f \<noteq> '''' \<longrightarrow> exported f"
  by (auto simp: ValidateStruct_def ValidateStruct_Struct split: sum.splits
        dest: fields_loop_exported)

lemma example_all_messages:
  "all_messages example_validators example_record =
     [''required'', ''min length is 3'', ''required'', ''max length is 1'']"
  by code_simp

lemma example_messages_at:
  "messages_at example_validators example_record ''name'' = [''required'', ''min length is 3'']"
  "messages_at example_validators example_record ''Email'' = [''required'']"
  "messages_at example_validators example_record ''Age'' = [''max length is 1'']"
  by code_simp+

lemma example_exported:
  "\<forall>f \<in> set example_record. rule_spec f \<noteq> '''' \<longrightarrow> exported f"
  by code_simp

text \<open>
  C1, as stated for every struct, fails: on a struct with an exported field that fails
  \<open>required\<close>, followed by a field that is not exported and has a purify tag, the
  validator returns its message for the first field and \<open>ValidateStruct\<close> then panics
  at the second, so no report is returned.
\<close>

theorem unexported_field_counterexample:
  "example_validators (fst (parseRule ''required'')) = Some Required \<and>
   Required '''' (snd (parseRule ''required'')) = ''required'' \<and>
   ValidateStruct example_validators
     (Some (Struct [\<lparr>Name = ''Name'', exported = True, Tag = [(''purify'', ''required'')],
                     rendered = ''''\<rparr>,
                    \<lparr>Name = ''secret'', exported = False, Tag = [(''purify'', ''required'')],
                     rendered = ''''\<rparr>])) =
     Inl (Panic ''reflect.Value.Interface: cannot return value obtained from unexported field or method'')"
  by (simp add: Let_def ValidateStruct_def ValidateStruct_traced_def ValueOf_def field_step_def
        Get_def apply_rule_def parseRule_def example_validators_def RegisterValidator_def
        Required_def)

text \<open>
  C1, amended. On a struct whose fields with rules are all exported, every non-empty
  message that a registered validator returns is appended to the list that \<open>Errors\<close>
  holds under the field's key, in the order the rules are evaluated: the list under a key
  is the concatenation, in field order, of the non-empty messages of the fields with that
  key, each in rule order, and a key without messages is absent. \<open>Message\<close> is the first
  non-empty message in field-then-rule order. Without any non-empty message the result
  is nil.
\<close>

theorem ValidateStruct_report:
  assumes "\<forall>f \<in> set fs. rule_spec f \<noteq> '''' \<longrightarrow> exported f"
  shows "(all_messages validators fs = [] \<longrightarrow>
            ValidateStruct validators (Some (Struct fs)) = Inr None) \<and>
         (all_messages validators fs \<noteq> [] \<longrightarrow>
            (\<exists>r. ValidateStruct validators (Some (Struct fs)) = Inr (Some r) \<and>
                 (\<forall>k. Mapping.lookup (Errors r) k =
                        (if messages_at validators fs k = [] then None
                         else Some (messages_at validators fs k))) \<and>
                 Message r = hd (all_messages validators fs)))"
  using assms by (rule ValidateStruct_fields)

theorem ValidateStruct_report_witness:
  "\<exists>r. ValidateStruct example_validators (Some (Struct example_record)) = Inr (Some r) \<and>
       Mapping.lookup (Errors r) ''name'' = Some [''required'', ''min length is 3''] \<and>
       Mapping.lookup (Errors r) ''Email'' = Some [''required''] \<and>
       Mapping.lookup (Errors r) ''Age'' = Some [''max length is 1''] \<and>
       Message r = ''required''"
proof -
  from ValidateStruct_report [OF example_exported, of example_validators]
  obtain r where
    r: "ValidateStruct example_validators (Some (Struct example_record)) = Inr (Some r)"
    and look: "\<And>k. Mapping.lookup (Errors r) k =
                        (if messages_at example_validators example_record k = [] then None
                         else Some (messages_at example_validators example_record k))"
    and msg: "Message r = hd (all_messages example_validators example_record)"
    by (auto simp: example_all_messages)
  from r look [of "''name''"] look [of "''Email''"] look [of "''Age''"] msg
  show ?thesis by (simp add: example_messages_at example_all_messages)
qed

text \<open>
  C8, as stated, fails: for a field tagged \<open>json:"a,omitempty"\<close> the name in the json tag
  is \<open>a\<close>, and the key in \<open>Errors\<close> is the whole tag value \<open>a,omitempty\<close>.
\<close>

theorem json_options_counterexample:
  "json_name ''a,omitempty'' = ''a'' \<and>
   ValidateStruct example_validators
     (Some (Struct [\<lparr>Name = ''A'', exported = True,
                     Tag = [(''json'', ''a,omitempty''), (''purify'', ''required'')],
                     rendered = ''''\<rparr>])) =
     Inr (Some \<lparr>Errors = Mapping.update ''a,omitempty'' [''required''] Mapping.empty,
                Message = ''required''\<rparr>) \<and>
   Mapping.lookup (Mapping.update ''a,omitempty'' [''required''] Mapping.empty) ''a'' = None"
  by (simp add: Let_def json_name_def ValidateStruct_def ValidateStruct_traced_def ValueOf_def
        field_step_def Get_def apply_rule_def parseRule_def example_validators_def
        RegisterValidator_def Required_def Mapping.lookup_default_empty)

text \<open>
  C8, amended. In a report, the keys of \<open>Errors\<close> are the display names of the fields that
  got a message: the whole value of the json tag of the field (the name together with any
  options after a comma) when the tag is present, non-empty and not \<open>-\<close>, and the
  declared name of the field otherwise.
\<close>

theorem Errors_keys:
  assumes "ValidateStruct validators (Some (Struct fs)) = Inr (Some r)"
  shows "Mapping.keys (Errors r) =
           set (map display_name (filter (\<lambda>f. field_messages validators f \<noteq> []) fs))"
proof -
  from ValidateStruct_Inr_exported [OF assms]
  have ex: "\<forall>f \<in> set fs. rule_spec f \<noteq> '''' \<longrightarrow> exported f" .
  from ValidateStruct_fields [OF ex, of validators] assms
  have look: "\<And>k. Mapping.lookup (Errors r) k =
                        (if messages_at validators fs k = [] then None
                         else Some (messages_at validators fs k))"
    by (cases "all_messages validators fs = []") auto
  have "k \<in> Mapping.keys (Errors r) \<longleftrightarrow>
        k \<in> set (map display_name (filter (\<lambda>f. field_messages validators f \<noteq> []) fs))" for k
    by (auto simp: keys_dom_lookup look messages_at_def dom_def)
  then show ?thesis by blast
qed

theorem Errors_keys_witness:
  "\<exists>r. ValidateStruct example_validators (Some (Struct example_record)) = Inr (Some r) \<and>
       Mapping.keys (Errors r) = {''name'', ''Email'', ''Age''}"
proof -
  from ValidateStruct_fields [OF example_exported, of example_validators]
  obtain r where
    r: "ValidateStruct example_validators (Some (Struct example_record)) = Inr (Some r)"
    by (auto simp: example_all_messages)
  have "set (map display_name
          (filter (\<lambda>f. field_messages example_validators f \<noteq> []) example_record)) =
        {''name'', ''Email'', ''Age''}"
    by code_simp
  with Errors_keys [OF r] r show ?thesis by auto
qed

text \<open>
  C3. A value that is not struct-shaped (the nil interface, a nil pointer, a pointer to
  something that is not a struct, or any other value that is not a struct) does not make
  \<open>ValidateStruct\<close> panic: it returns the report whose \<open>Errors\<close> holds the one list
  \<open>["expected a struct"]\<close> under the empty key, and whose \<open>Message\<close> is
  \<open>"expected a struct"\<close>.
\<close>

theorem not_struct_shaped:
  "\<not> struct_shaped s \<Longrightarrow>
     ValidateStruct validators s =
       Inr (Some \<lparr>Errors = Mapping.update '''' [''expected a struct''] Mapping.empty,
                  Message = ''expected a struct''\<rparr>)"
  by (induction s rule: struct_shaped.induct)
     (simp_all add: ValidateStruct_def ValidateStruct_traced_def ValueOf_def
        expected_a_struct_def)

theorem not_struct_shaped_witness:
  "ValidateStruct Map.empty (Some (Scalar ''42'')) =
       Inr (Some \<lparr>Errors = Mapping.update '''' [''expected a struct''] Mapping.empty,
                  Message = ''expected a struct''\<rparr>) \<and>
   ValidateStruct Map.empty None =
       Inr (Some \<lparr>Errors = Mapping.update '''' [''expected a struct''] Mapping.empty,
                  Message = ''expected a struct''\<rparr>) \<and>
   ValidateStruct Map.empty (Some (Pointer None)) =
       Inr (Some \<lparr>Errors = Mapping.update '''' [''expected a struct''] Mapping.empty,
                  Message = ''expected a struct''\<rparr>) \<and>
   ValidateStruct Map.empty (Some (Pointer (Some (Pointer (Some (Struct [])))))) =
       Inr (Some \<lparr>Errors = Mapping.update '''' [''expected a struct''] Mapping.empty,
                  Message = ''expected a struct''\<rparr>)"
proof -
  have a: "\<not> struct_shaped (Some (Scalar ''42''))" by simp
  have b: "\<not> struct_shaped None" by simp
  have c: "\<not> struct_shaped (Some (Pointer None))" by simp
  have d: "\<not> struct_shaped (Some (Pointer (Some (Pointer (Some (Struct []))))))" by simp
  from not_struct_shaped [OF a] not_struct_shaped [OF b] not_struct_shaped [OF c]
    not_struct_shaped [OF d]
  show ?thesis by blast
qed

text \<open>
  C4. On a struct in which the purify tag of every field is absent or empty,
  \<open>ValidateStruct\<close> calls no validator and returns nil.
\<close>

theorem no_rules_no_report:
  "\<forall>f \<in> set fs. map_of (Tag f) ''purify'' = None \<or> map_of (Tag f) ''purify'' = Some '''' \<Longrightarrow>
     ValidateStruct_traced validators (Some (Struct fs)) = Inr (None, []) \<and>
     ValidateStruct validators (Some (Struct fs)) = Inr None"
proof -
  assume "\<forall>f \<in> set fs. map_of (Tag f) ''purify'' = None \<or> map_of (Tag f) ''purify'' = Some ''''"
  then have "\<forall>f \<in> set fs. rule_spec f = ''''"
    by (auto simp: rule_spec_def)
  then show ?thesis
    by (simp add: ValidateStruct_def ValidateStruct_Struct fields_loop_skip)
qed

theorem no_rules_no_report_witness:
  "ValidateStruct_traced example_validators
     (Some (Struct [\<lparr>Name = ''Name'', exported = True, Tag = [(''json'', ''name'')],
                     rendered = ''''\<rparr>,
                    \<lparr>Name = ''age'', exported = False, Tag = [(''purify'', '''')],
                     rendered = ''0''\<rparr>]))
     = Inr (None, [])"
proof -
  let ?fs = "[\<lparr>Name = ''Name'', exported = True, Tag = [(''json'', ''name'')],
               rendered = ''''\<rparr>,
              \<lparr>Name = ''age'', exported = False, Tag = [(''purify'', '''')],
               rendered = ''0''\<rparr>]"
  have h: "\<forall>f \<in> set ?fs.
             map_of (Tag f) ''purify'' = None \<or> map_of (Tag f) ''purify'' = Some ''''"
    by simp
  from no_rules_no_report [OF h] show ?thesis by blast
qed

text \<open>
  C5. A rule whose name is not in the registry is skipped: the step of the loop leaves
  the errors, the message and the log of validator calls as they were and cannot panic,
  so the rules with unknown names can be deleted from a rule list without changing what
  the loop computes. A struct in which every rule of every field is unknown gives nil,
  with no validator called.
\<close>

theorem unknown_rule_skipped:
  "(validators (fst (parseRule rule)) = None \<longrightarrow>
      apply_rule validators fieldName fieldValueStr rule st = st) \<and>
   rules_loop validators fieldName fieldValueStr rules st =
     rules_loop validators fieldName fieldValueStr
       (filter (\<lambda>r. validators (fst (parseRule r)) \<noteq> None) rules) st \<and>
   ((\<forall>f \<in> set fs. (rule_spec f \<noteq> '''' \<longrightarrow> exported f) \<and>
        (\<forall>r \<in> set (field_rules f). validators (fst (parseRule r)) = None)) \<longrightarrow>
      ValidateStruct_traced validators (Some (Struct fs)) = Inr (None, []))"
proof (intro conjI impI)
  assume "validators (fst (parseRule rule)) = None"
  then show "apply_rule validators fieldName fieldValueStr rule st = st"
    by (rule apply_rule_unknown)
next
  show "rules_loop validators fieldName fieldValueStr rules st =
     rules_loop validators fieldName fieldValueStr
       (filter (\<lambda>r. validators (fst (parseRule r)) \<noteq> None) rules) st"
    by (rule rules_loop_known)
next
  assume "\<forall>f \<in> set fs. (rule_spec f \<noteq> '''' \<longrightarrow> exported f) \<and>
        (\<forall>r \<in> set (field_rules f). validators (fst (parseRule r)) = None)"
  then show "ValidateStruct_traced validators (Some (Struct fs)) = Inr (None, [])"
    by (simp add: ValidateStruct_Struct fields_loop_unknown)
qed

theorem unknown_rule_skipped_witness:
  "apply_rule example_validators ''name'' ''Al'' ''bogus(1)''
     \<lparr>validationErrors = Mapping.empty, firstErrorMessage = '''', invoked = []\<rparr> =
     \<lparr>validationErrors = Mapping.empty, firstErrorMessage = '''', invoked = []\<rparr> \<and>
   ValidateStruct_traced example_validators
     (Some (Struct [\<lparr>Name = ''Name'', exported = True, Tag = [(''purify'', ''bogus(1)|email'')],
                     rendered = ''Al''\<rparr>])) = Inr (None, [])"
proof -
  let ?fs = "[\<lparr>Name = ''Name'', exported = True, Tag = [(''purify'', ''bogus(1)|email'')],
               rendered = ''Al''\<rparr>]"
  have a: "example_validators (fst (parseRule ''bogus(1)'')) = None"
    by code_simp
  have b: "\<forall>f \<in> set ?fs. (rule_spec f \<noteq> '''' \<longrightarrow> exported f) \<and>
        (\<forall>r \<in> set (field_rules f). example_validators (fst (parseRule r)) = None)"
    by code_simp
  from a b unknown_rule_skipped [of example_validators "''bogus(1)''" "''name''" "''Al''"
       "\<lparr>validationErrors = Mapping.empty, firstErrorMessage = '''', invoked = []\<rparr>" "[]" ?fs]
  show ?thesis by blast
qed

section \<open>Registering a validator twice\<close>

lemma run_Validate:
  "run validators (map Validate ss) =
     (map (\<lambda>s. Validated (ValidateStruct validators s)) ss, validators)"
  by (induction ss) simp_all

lemma run_Cons:
  "run validators (c # cs) =
     (fst (exec validators c) # fst (run (snd (exec validators c)) cs),
      snd (run (snd (exec validators c)) cs))"
  by (simp add: Let_def split: prod.splits)

lemma Split_no_sep: "c \<notin> set s \<Longrightarrow> Split s c = [s]"
  by (induction s) auto

lemma apply_rule_known:
  assumes "parseRule rule = (n, p)" "validators n = Some g"
  shows "apply_rule validators k v rule st =
     (if g v p \<noteq> ''''
      then st\<lparr>invoked := invoked st @ [(n, v, p)],
              validationErrors :=
                Mapping.update k (Mapping.lookup_default [] (validationErrors st) k @ [g v p])
                  (validationErrors st),
              firstErrorMessage := (if firstErrorMessage st = '''' then g v p
                                    else firstErrorMessage st)\<rparr>
      else st\<lparr>invoked := invoked st @ [(n, v, p)]\<rparr>)"
  using assms by (simp add: apply_rule_def Let_def)

lemma single_rule_field:
  assumes "exported fld" "rule_spec fld = rule" "rule \<noteq> ''''" "CHR ''|'' \<notin> set rule"
    and "parseRule rule = (n, p)" "validators n = Some g"
  shows "ValidateStruct_traced validators (Some (Struct [fld])) =
     (if g (rendered fld) p = '''' then Inr (None, [(n, rendered fld, p)])
      else Inr (Some \<lparr>Errors = Mapping.update (display_name fld) [g (rendered fld) p] Mapping.empty,
                      Message = g (rendered fld) p\<rparr>, [(n, rendered fld, p)]))"
proof -
  from assms(2,3,4) have "field_rules fld = [rule]"
    by (simp add: field_rules_def Split_no_sep)
  with assms(1) have "field_step validators fld st =
      Inr (apply_rule validators (display_name fld) (rendered fld) rule st)" for st
    by (simp add: field_step_run)
  then show ?thesis
    by (simp add: ValidateStruct_Struct apply_rule_known [of rule n p validators g, OF assms(5,6)]
          Mapping.lookup_default_empty)
qed


text \<open>
  C6. Registering \<open>g\<close> under a name that already holds \<open>f\<close> raises no error and leaves
  the registry exactly as if \<open>f\<close> had never been registered: the name maps to \<open>g\<close>, and
  every later \<open>ValidateStruct\<close> call runs on that registry. A rule of that name calls
  \<open>g\<close>, once, on the field's value and the rule's parameter, and records the message of
  \<open>g\<close> when it is not empty; a struct with one exported field whose only rule has that
  name gives nil when \<open>g\<close> returns the empty message, and otherwise the report with the
  message of \<open>g\<close> under the field's key.
\<close>

theorem register_overwrites:
  "RegisterValidator n g (RegisterValidator n f validators) = RegisterValidator n g validators \<and>
   RegisterValidator n g (RegisterValidator n f validators) n = Some g \<and>
   run validators ([Register n f, Register n g] @ map Validate ss) =
     ([Registered, Registered] @
        map (\<lambda>s. Validated (ValidateStruct (validators(n \<mapsto> g)) s)) ss,
      validators(n \<mapsto> g)) \<and>
   (fst (parseRule rule) = n \<longrightarrow>
      apply_rule (RegisterValidator n g (RegisterValidator n f validators))
        fieldName fieldValueStr rule st =
      (if g fieldValueStr (snd (parseRule rule)) \<noteq> ''''
       then st\<lparr>invoked := invoked st @ [(n, fieldValueStr, snd (parseRule rule))],
               validationErrors :=
                 Mapping.update fieldName
                   (Mapping.lookup_default [] (validationErrors st) fieldName @
                    [g fieldValueStr (snd (parseRule rule))])
                   (validationErrors st),
               firstErrorMessage :=
                 (if firstErrorMessage st = '''' then g fieldValueStr (snd (parseRule rule))
                  else firstErrorMessage st)\<rparr>
       else st\<lparr>invoked := invoked st @ [(n, fieldValueStr, snd (parseRule rule))]\<rparr>)) \<and>
   (exported fld \<and> rule_spec fld = rule \<and> rule \<noteq> '''' \<and> CHR ''|'' \<notin> set rule \<and>
    fst (parseRule rule) = n \<longrightarrow>
      ValidateStruct (RegisterValidator n g (RegisterValidator n f validators))
        (Some (Struct [fld])) =
      (if g (rendered fld) (snd (parseRule rule)) = '''' then Inr None
       else Inr (Some \<lparr>Errors = Mapping.update (display_name fld)
                                  [g (rendered fld) (snd (parseRule rule))] Mapping.empty,
                       Message = g (rendered fld) (snd (parseRule rule))\<rparr>)))"
proof -
  let ?V = "RegisterValidator n g (RegisterValidator n f validators)"
  have a: "?V = RegisterValidator n g validators"
    by (simp add: RegisterValidator_def)
  have b: "?V n = Some g"
    by (simp add: RegisterValidator_def)
  have c: "run validators ([Register n f, Register n g] @ map Validate ss) =
     ([Registered, Registered] @
        map (\<lambda>s. Validated (ValidateStruct (validators(n \<mapsto> g)) s)) ss,
      validators(n \<mapsto> g))"
    by (simp add: RegisterValidator_def run_Cons run_Validate del: run.simps)
  have d: "apply_rule ?V fieldName fieldValueStr rule st =
      (if g fieldValueStr (snd (parseRule rule)) \<noteq> ''''
       then st\<lparr>invoked := invoked st @ [(n, fieldValueStr, snd (parseRule rule))],
               validationErrors :=
                 Mapping.update fieldName
                   (Mapping.lookup_default [] (validationErrors st) fieldName @
                    [g fieldValueStr (snd (parseRule rule))])
                   (validationErrors st),
               firstErrorMessage :=
                 (if firstErrorMessage st = '''' then g fieldValueStr (snd (parseRule rule))
                  else firstErrorMessage st)\<rparr>
       else st\<lparr>invoked := invoked st @ [(n, fieldValueStr, snd (parseRule rule))]\<rparr>)"
    if "fst (parseRule rule) = n"
  proof -
    from that have "parseRule rule = (n, snd (parseRule rule))" by (metis prod.collapse)
    from apply_rule_known [of rule n "snd (parseRule rule)" ?V g, OF this b] show ?thesis .
  qed
  have e: "ValidateStruct ?V (Some (Struct [fld])) =
      (if g (rendered fld) (snd (parseRule rule)) = '''' then Inr None
       else Inr (Some \<lparr>Errors = Mapping.update (display_name fld)
                                  [g (rendered fld) (snd (parseRule rule))] Mapping.empty,
                       Message = g (rendered fld) (snd (parseRule rule))\<rparr>))"
    if "exported fld \<and> rule_spec fld = rule \<and> rule \<noteq> '''' \<and> CHR ''|'' \<notin> set rule \<and>
        fst (parseRule rule) = n"
  proof -
    from that have p: "parseRule rule = (n, snd (parseRule rule))" by (metis prod.collapse)
    from that single_rule_field [of fld rule n "snd (parseRule rule)" ?V g, OF _ _ _ _ p b] show ?thesis
      by (simp add: ValidateStruct_def)
  qed
  from a b c d e show ?thesis by blast
qed

theorem register_overwrites_witness:
  "ValidateStruct (RegisterValidator ''min'' Min_validator
                     (RegisterValidator ''min'' Required Map.empty))
     (Some (Struct [\<lparr>Name = ''Name'', exported = True,
                     Tag = [(''json'', ''name''), (''purify'', ''min(3)'')], rendered = ''''\<rparr>])) =
     Inr (Some \<lparr>Errors = Mapping.update ''name'' [''min length is 3''] Mapping.empty,
                Message = ''min length is 3''\<rparr>) \<and>
   apply_rule (RegisterValidator ''min'' Min_validator
                 (RegisterValidator ''min'' Required Map.empty))
     ''name'' '''' ''min(3)''
     \<lparr>validationErrors = Mapping.empty, firstErrorMessage = '''', invoked = []\<rparr> =
     \<lparr>validationErrors = Mapping.update ''name'' [''min length is 3''] Mapping.empty,
      firstErrorMessage = ''min length is 3'', invoked = [(''min'', '''', ''3'')]\<rparr>"
proof -
  let ?fld = "\<lparr>Name = ''Name'', exported = True,
               Tag = [(''json'', ''name''), (''purify'', ''min(3)'')], rendered = ''''\<rparr>"
  let ?st = "\<lparr>validationErrors = Mapping.empty, firstErrorMessage = '''', invoked = []\<rparr>"
  have p: "parseRule ''min(3)'' = (''min'', ''3'')" by code_simp
  have g: "Min_validator '''' ''3'' = ''min length is 3''" by code_simp
  have h: "exported ?fld \<and> rule_spec ?fld = ''min(3)'' \<and> ''min(3)'' \<noteq> '''' \<and>
           CHR ''|'' \<notin> set ''min(3)'' \<and> fst (parseRule ''min(3)'') = ''min''"
    by (simp add: rule_spec_def p)
  have dn: "display_name ?fld = ''name''" by (simp add: display_name_def)
  from p have n: "fst (parseRule ''min(3)'') = ''min''" by simp
  note t = register_overwrites [of "''min''" Min_validator Required Map.empty "[]" "''min(3)''"
       "''name''" "''''" ?st ?fld]
  note t4 = t [THEN conjunct2, THEN conjunct2, THEN conjunct2, THEN conjunct1]
  note t5 = t [THEN conjunct2, THEN conjunct2, THEN conjunct2, THEN conjunct2]
  from t5 h have "ValidateStruct (RegisterValidator ''min'' Min_validator
                     (RegisterValidator ''min'' Required Map.empty)) (Some (Struct [?fld])) =
     Inr (Some \<lparr>Errors = Mapping.update ''name'' [''min length is 3''] Mapping.empty,
                Message = ''min length is 3''\<rparr>)"
    by (simp add: p g dn)
  moreover from t4 n have "apply_rule (RegisterValidator ''min'' Min_validator
                 (RegisterValidator ''min'' Required Map.empty)) ''name'' '''' ''min(3)'' ?st =
     \<lparr>validationErrors = Mapping.update ''name'' [''min length is 3''] Mapping.empty,
      firstErrorMessage = ''min length is 3'', invoked = [(''min'', '''', ''3'')]\<rparr>"
    by (simp add: p g Mapping.lookup_default_empty)
  ultimately show ?thesis by blast
qed

section \<open>Repeated calls with pure validators\<close>

lemma pure_validator_eq:
  "pure_validator fn \<Longrightarrow> fn v p w = (fst (fn v p w0), w)"
  unfolding pure_validator_def by (metis prod.collapse)

lemma apply_rule_fx_pure:
  assumes "\<forall>name fn. validators name = Some fn \<longrightarrow> pure_validator fn"
  shows "apply_rule_fx validators k v rule st w =
           (apply_rule (pure_part w0 validators) k v rule st, w)"
proof (cases "parseRule rule")
  case (Pair ruleName param)
  show ?thesis
  proof (cases "validators ruleName")
    case None
    with Pair show ?thesis
      by (simp add: apply_rule_fx_def apply_rule_def pure_part_def)
  next
    case (Some fn)
    with assms have "pure_validator fn" by blast
    then have "fn v param w = (fst (fn v param w0), w)"
      by (rule pure_validator_eq)
    with Pair Some show ?thesis
      by (simp add: apply_rule_fx_def apply_rule_def pure_part_def Let_def)
  qed
qed

lemma rules_loop_fx_pure:
  assumes "\<forall>name fn. validators name = Some fn \<longrightarrow> pure_validator fn"
  shows "rules_loop_fx validators k v rules st w =
           (rules_loop (pure_part w0 validators) k v rules st, w)"
  by (induction rules arbitrary: st) (simp_all add: apply_rule_fx_pure [OF assms, of _ _ _ _ _ w0])

lemma field_step_fx_pure:
  assumes "\<forall>name fn. validators name = Some fn \<longrightarrow> pure_validator fn"
  shows "field_step_fx validators f st w = (field_step (pure_part w0 validators) f st, w)"
  by (simp add: field_step_fx_def field_step_def Let_def rules_loop_fx_pure [OF assms, of _ _ _ _ _ w0])

lemma fields_loop_fx_pure:
  assumes "\<forall>name fn. validators name = Some fn \<longrightarrow> pure_validator fn"
  shows "fields_loop_fx validators fs st w = (fields_loop (pure_part w0 validators) fs st, w)"
  by (induction fs arbitrary: st)
     (simp_all add: field_step_fx_pure [OF assms, of _ _ _ w0] split: sum.splits)

lemma ValidateStruct_fx_pure:
  assumes "\<forall>name fn. validators name = Some fn \<longrightarrow> pure_validator fn"
  shows "ValidateStruct_fx validators s w = (ValidateStruct (pure_part w0 validators) s, w)"
  by (simp add: ValidateStruct_fx_def ValidateStruct_def ValidateStruct_traced_def Let_def
        fields_loop_fx_pure [OF assms, of _ _ _ w0] split: sum.splits)


text \<open>
  C9. When every registered validator is pure, \<open>ValidateStruct\<close> leaves the world as it
  is and its result does not depend on the world: it is the result computed from the
  value and from the functions of the validators alone. So two calls on the same value
  and registry, one after the other or in different states of the world, return the
  same result: the same panic, the same report (the same keys with the same lists, the
  same message), or nil both times.
\<close>

theorem ValidateStruct_deterministic:
  assumes "\<forall>name fn. validators name = Some fn \<longrightarrow> pure_validator fn"
  shows "ValidateStruct_fx validators s w = (ValidateStruct (pure_part w0 validators) s, w) \<and>
         fst (ValidateStruct_fx validators s (snd (ValidateStruct_fx validators s w))) =
           fst (ValidateStruct_fx validators s w) \<and>
         fst (ValidateStruct_fx validators s w') = fst (ValidateStruct_fx validators s w)"
  using ValidateStruct_fx_pure [OF assms, of s w w0] ValidateStruct_fx_pure [OF assms, of s w' w0]
  by simp


theorem ValidateStruct_deterministic_witness:
  "fst (ValidateStruct_fx [''required'' \<mapsto> (\<lambda>v p (w::nat). (Required v p, w))]
          (Some (Struct [\<lparr>Name = ''Name'', exported = True, Tag = [(''purify'', ''required'')],
                          rendered = ''''\<rparr>])) 0) =
     Inr (Some \<lparr>Errors = Mapping.update ''Name'' [''required''] Mapping.empty,
                Message = ''required''\<rparr>) \<and>
   fst (ValidateStruct_fx [''required'' \<mapsto> (\<lambda>v p (w::nat). (Required v p, w))]
          (Some (Struct [\<lparr>Name = ''Name'', exported = True, Tag = [(''purify'', ''required'')],
                          rendered = ''''\<rparr>])) 7) =
     Inr (Some \<lparr>Errors = Mapping.update ''Name'' [''required''] Mapping.empty,
                Message = ''required''\<rparr>) \<and>
   snd (ValidateStruct_fx [''required'' \<mapsto> (\<lambda>v p (w::nat). (Required v p, w))]
          (Some (Struct [\<lparr>Name = ''Name'', exported = True, Tag = [(''purify'', ''required'')],
                          rendered = ''''\<rparr>])) 7) = 7"
proof -
  let ?V = "[''required'' \<mapsto> (\<lambda>v p (w::nat). (Required v p, w))]"
  let ?s = "Some (Struct [\<lparr>Name = ''Name'', exported = True, Tag = [(''purify'', ''required'')],
                          rendered = ''''\<rparr>])"
  have h: "\<forall>name fn. ?V name = Some fn \<longrightarrow> pure_validator fn"
    by (simp add: pure_validator_def)
  have z: "fst (ValidateStruct_fx ?V ?s 0) =
     Inr (Some \<lparr>Errors = Mapping.update ''Name'' [''required''] Mapping.empty,
                Message = ''required''\<rparr>)"
    by (simp add: Let_def ValidateStruct_fx_def ValueOf_def field_step_fx_def Get_def apply_rule_fx_def
        parseRule_def Required_def Mapping.lookup_default_empty)
  note t = ValidateStruct_deterministic [OF h, of ?s 7 0 0]
  from t have a: "fst (ValidateStruct_fx ?V ?s 0) = fst (ValidateStruct_fx ?V ?s 7)"
    by blast
  from t have "ValidateStruct_fx ?V ?s 7 = (ValidateStruct (pure_part 0 ?V) ?s, 7)"
    by blast
  then have b: "snd (ValidateStruct_fx ?V ?s 7) = 7"
    by (simp only: snd_conv)
  from a [symmetric] z have c: "fst (ValidateStruct_fx ?V ?s 7) =
     Inr (Some \<lparr>Errors = Mapping.update ''Name'' [''required''] Mapping.empty,
                Message = ''required''\<rparr>)"
    by (rule trans)
  from z c b show ?thesis by blast
qed


text \<open>Without purity the result can change from one call to the next: with the
  validator that counts its calls, the first call returns nil and the second a report.\<close>

lemma counting_validator_not_deterministic:
  "fst (ValidateStruct_fx [''required'' \<mapsto> counting_validator]
          (Some (Struct [\<lparr>Name = ''Name'', exported = True, Tag = [(''purify'', ''required'')],
                          rendered = ''Al''\<rparr>])) 0) = Inr None \<and>
   fst (ValidateStruct_fx [''required'' \<mapsto> counting_validator]
          (Some (Struct [\<lparr>Name = ''Name'', exported = True, Tag = [(''purify'', ''required'')],
                          rendered = ''Al''\<rparr>])) 1) =
     Inr (Some \<lparr>Errors = Mapping.update ''Name'' [''seen before''] Mapping.empty,
                Message = ''seen before''\<rparr>)"
  by (simp add: ValidateStruct_fx_def ValueOf_def field_step_fx_def Get_def apply_rule_fx_def
        parseRule_def counting_validator_def Mapping.lookup_default_empty)

section \<open>Pointers to structs\<close>

text \<open>
  C10. \<open>ValidateStruct\<close> on a pointer to a struct dereferences the pointer and runs the
  loop over the fields of the struct: it returns what it returns on the struct itself,
  with the same validator calls. In particular it returns nil when no field has rules,
  and otherwise nil or the report of the messages of the struct's fields, as on the
  struct.
\<close>

theorem pointer_to_struct:
  "ValidateStruct validators (Some (Pointer (Some (Struct fs)))) =
     ValidateStruct validators (Some (Struct fs)) \<and>
   ValidateStruct_traced validators (Some (Pointer (Some (Struct fs)))) =
     (case fields_loop validators fs
             \<lparr>validationErrors = Mapping.empty, firstErrorMessage = '''', invoked = []\<rparr> of
        Inl p \<Rightarrow> Inl p
      | Inr st \<Rightarrow>
          if \<not> Mapping.is_empty (validationErrors st)
          then Inr (Some \<lparr>Errors = validationErrors st, Message = firstErrorMessage st\<rparr>,
                    invoked st)
          else Inr (None, invoked st)) \<and>
   ((\<forall>f \<in> set fs. rule_spec f = '''') \<longrightarrow>
      ValidateStruct_traced validators (Some (Pointer (Some (Struct fs)))) = Inr (None, [])) \<and>
   ((\<forall>f \<in> set fs. rule_spec f \<noteq> '''' \<longrightarrow> exported f) \<longrightarrow>
      (all_messages validators fs = [] \<longrightarrow>
         ValidateStruct validators (Some (Pointer (Some (Struct fs)))) = Inr None) \<and>
      (all_messages validators fs \<noteq> [] \<longrightarrow>
         (\<exists>r. ValidateStruct validators (Some (Pointer (Some (Struct fs)))) = Inr (Some r) \<and>
              (\<forall>k. Mapping.lookup (Errors r) k =
                     (if messages_at validators fs k = [] then None
                      else Some (messages_at validators fs k))) \<and>
              Message r = hd (all_messages validators fs))))"
proof -
  have t: "ValidateStruct_traced validators (Some (Pointer (Some (Struct fs)))) =
           ValidateStruct_traced validators (Some (Struct fs))"
    by (rule ValidateStruct_Pointer)
  then have v: "ValidateStruct validators (Some (Pointer (Some (Struct fs)))) =
           ValidateStruct validators (Some (Struct fs))"
    by (simp add: ValidateStruct_def)
  have c: "ValidateStruct_traced validators (Some (Pointer (Some (Struct fs)))) =
           Inr (None, [])" if "\<forall>f \<in> set fs. rule_spec f = ''''"
    using that by (simp add: t ValidateStruct_Struct fields_loop_skip)
  from t v c ValidateStruct_Struct [of validators fs] ValidateStruct_fields [of fs validators]
  show ?thesis by simp
qed

theorem pointer_to_struct_witness:
  "ValidateStruct_traced example_validators
     (Some (Pointer (Some (Struct [\<lparr>Name = ''Name'', exported = True,
                                    Tag = [(''json'', ''name'')], rendered = ''''\<rparr>])))) =
     Inr (None, []) \<and>
   (\<exists>r. ValidateStruct example_validators (Some (Pointer (Some (Struct example_record)))) =
          Inr (Some r) \<and>
        Mapping.lookup (Errors r) ''name'' = Some [''required'', ''min length is 3''] \<and>
        Mapping.lookup (Errors r) '''' = None \<and>
        Message r = ''required'')"
proof -
  let ?fs = "[\<lparr>Name = ''Name'', exported = True, Tag = [(''json'', ''name'')], rendered = ''''\<rparr>]"
  have h: "\<forall>f \<in> set ?fs. rule_spec f = ''''" by (simp add: rule_spec_def)
  note t = pointer_to_struct [of example_validators]
  from h t [of ?fs, THEN conjunct2, THEN conjunct2, THEN conjunct1]
  have a: "ValidateStruct_traced example_validators (Some (Pointer (Some (Struct ?fs)))) =
           Inr (None, [])"
    by blast
  have e: "messages_at example_validators example_record '''' = []" by code_simp
  from example_exported t [of example_record, THEN conjunct2, THEN conjunct2, THEN conjunct2]
  obtain r where
    r: "ValidateStruct example_validators (Some (Pointer (Some (Struct example_record)))) =
          Inr (Some r)"
    and look: "\<And>k. Mapping.lookup (Errors r) k =
                        (if messages_at example_validators example_record k = [] then None
                         else Some (messages_at example_validators example_record k))"
    and msg: "Message r = hd (all_messages example_validators example_record)"
    by (auto simp: example_all_messages)
  from r look [of "''name''"] look [of "''''"] msg
  have "ValidateStruct example_validators (Some (Pointer (Some (Struct example_record)))) =
          Inr (Some r) \<and>
        Mapping.lookup (Errors r) ''name'' = Some [''required'', ''min length is 3''] \<and>
        Mapping.lookup (Errors r) '''' = None \<and>
        Message r = ''required''"
    by (simp add: example_messages_at example_all_messages e)
  with a show ?thesis by blast
qed


section \<open>The length validators on parameters that Atoi rejects\<close>

lemma ParseInt_cases:
  "ParseInt s = (0, Some ErrSyntax) \<or> snd (ParseInt s) = None \<or>
   ParseInt s = (2 ^ 63 - 1, Some ErrRange) \<or> ParseInt s = (- (2 ^ 63), Some ErrRange)"
proof (cases "s = []")
  case True
  then show ?thesis by (simp add: ParseInt_def)
next
  case False
  obtain un err where u:
    "ParseUint (if hd s = CHR ''+'' \<or> hd s = CHR ''-'' then tl s else s) = (un, err)"
    by (cases "ParseUint (if hd s = CHR ''+'' \<or> hd s = CHR ''-'' then tl s else s)")
  show ?thesis
  proof (cases err)
    case None
    with False u show ?thesis by (simp add: ParseInt_def Let_def)
  next
    case (Some e)
    with False u show ?thesis by (cases e) (simp_all add: ParseInt_def Let_def)
  qed
qed

lemma Atoi_cases:
  "Atoi s = (0, Some ErrSyntax) \<or> snd (Atoi s) = None \<or>
   Atoi s = (2 ^ 63 - 1, Some ErrRange) \<or> Atoi s = (- (2 ^ 63), Some ErrRange)"
proof (cases "0 < length s \<and> length s < 19")
  case True
  then show ?thesis
    by (cases "atoi_digits (if hd s = CHR ''-'' \<or> hd s = CHR ''+'' then tl s else s) 0")
       (simp_all add: Atoi_def Let_def)
next
  case False
  then have "Atoi s = ParseInt s" by (auto simp: Atoi_def Let_def)
  with ParseInt_cases [of s] show ?thesis by simp
qed

lemma Atoi_syntax_zero: "snd (Atoi param) = Some ErrSyntax \<Longrightarrow> fst (Atoi param) = 0"
  using Atoi_cases [of param] by auto

lemma Atoi_range_bound:
  "snd (Atoi param) = Some ErrRange \<Longrightarrow>
     fst (Atoi param) = 2 ^ 63 - 1 \<or> fst (Atoi param) = - (2 ^ 63)"
  using Atoi_cases [of param] by auto

lemma byte_arith:
  assumes "0 \<le> (x::int)" "x < 256"
  shows "(9 < (x + 256 - 48) mod 256) = (\<not> (48 \<le> x \<and> x \<le> 57))"
proof (cases "48 \<le> x")
  case True
  have "x + 256 - 48 = (x - 48) + 256" by simp
  then have "(x + 256 - 48) mod 256 = (x - 48) mod 256"
    by (simp only: mod_add_self2)
  also from True assms have "\<dots> = x - 48" by (intro mod_pos_pos_trivial) simp_all
  finally show ?thesis using True by auto
next
  case False
  with assms have "(x + 256 - 48) mod 256 = x + 256 - 48"
    by (intro mod_pos_pos_trivial) simp_all
  with False assms show ?thesis by simp
qed

lemma of_char_bounds: "0 \<le> (of_char c :: int) \<and> (of_char c :: int) < 256"
proof -
  have "(of_char c :: int) = int (of_char c)" by (simp add: of_nat_of_char)
  moreover have "(of_char c :: nat) < 256" by simp
  ultimately show ?thesis by simp
qed

lemma byte_minus_zero:
  "((of_char c :: int) + 256 - 48) mod 256 > 9 \<longleftrightarrow> \<not> is_digit c"
  using byte_arith [of "of_char c"] of_char_bounds [of c] unfolding is_digit_def by blast

lemma atoi_digits_None: "atoi_digits s n = None \<longleftrightarrow> \<not> list_all is_digit s"
proof (induction s arbitrary: n)
  case Nil
  show ?case by simp
next
  case (Cons c s)
  show ?case
  proof (cases "is_digit c")
    case True
    with byte_minus_zero [of c] have "\<not> ((of_char c :: int) + 256 - 48) mod 256 > 9" by blast
    with True Cons.IH show ?thesis by (simp add: Let_def)
  next
    case False
    with byte_minus_zero [of c] have "((of_char c :: int) + 256 - 48) mod 256 > 9" by blast
    with False show ?thesis by (simp add: Let_def)
  qed
qed

lemma Atoi_short:
  assumes "length s < 19"
  shows "snd (Atoi s) = Some ErrSyntax \<longleftrightarrow> \<not> decimal_literal s"
proof (cases s)
  case Nil
  then show ?thesis by (simp add: Atoi_def ParseInt_def decimal_literal_def)
next
  case (Cons c cs)
  with assms have l: "0 < length s" "length s < 19" by simp_all
  show ?thesis
  proof (cases "c = CHR ''-'' \<or> c = CHR ''+''")
    case sign: True
    show ?thesis
    proof (cases "cs = []")
      case True
      with sign Cons show ?thesis
        by (auto simp: Atoi_def decimal_literal_def)
    next
      case False
      from sign Cons False l have
        "Atoi s = (case atoi_digits cs 0 of None \<Rightarrow> (0, Some ErrSyntax)
                   | Some n \<Rightarrow> (if c = CHR ''-'' then - n else n, None))"
        by (simp add: Atoi_def Let_def split: option.splits)
      moreover from sign Cons False have "decimal_literal s = list_all is_digit cs"
        by (simp add: decimal_literal_def)
      ultimately show ?thesis using atoi_digits_None [of cs 0]
        by (cases "atoi_digits cs 0") simp_all
    qed
  next
    case False
    from False Cons l have
      "Atoi s = (case atoi_digits s 0 of None \<Rightarrow> (0, Some ErrSyntax)
                 | Some n \<Rightarrow> (n, None))"
      by (simp add: Atoi_def Let_def split: option.splits)
    moreover from False Cons have "decimal_literal s = list_all is_digit s"
      by (simp add: decimal_literal_def)
    ultimately show ?thesis using atoi_digits_None [of s 0]
      by (cases "atoi_digits s 0") simp_all
  qed
qed

text \<open>
  C7, as stated, fails: \<open>Atoi\<close> rejects the parameter \<open>99999999999999999999x\<close>, which is
  not an integer, with a range error and the value \<open>2 ^ 63 - 1\<close>, so \<open>min\<close> with this
  parameter returns a message for the value \<open>abc\<close>.
\<close>

theorem unparsable_param_counterexample:
  "snd (Atoi ''99999999999999999999x'') = Some ErrRange \<and>
   Min_validator ''abc'' ''99999999999999999999x'' = ''min length is 99999999999999999999x''"
  by (simp add: Atoi_def ParseInt_def ParseUint_def Min_validator_def cutoff_def maxVal_def)

text \<open>
  C7, amended. A parameter on which \<open>Atoi\<close> reports a syntax error is evaluated as zero:
  \<open>min\<close> returns the empty message for every value, and \<open>max\<close> fails every value of
  non-zero length and passes the empty value. For a parameter shorter than 19 bytes,
  \<open>Atoi\<close> reports a syntax error exactly when the parameter is not a run of decimal
  digits after an optional sign. A parameter on which \<open>Atoi\<close> reports a range error is
  evaluated as the largest or the smallest \<open>int\<close>.
\<close>

theorem syntax_error_param_is_zero:
  "(snd (Atoi param) = Some ErrSyntax \<longrightarrow>
      fst (Atoi param) = 0 \<and>
      Min_validator fieldValue param = '''' \<and>
      (fieldValue \<noteq> '''' \<longrightarrow>
         Max_validator fieldValue param = ''max length is '' @ param) \<and>
      Max_validator '''' param = '''') \<and>
   (length param < 19 \<longrightarrow> (snd (Atoi param) = Some ErrSyntax \<longleftrightarrow> \<not> decimal_literal param)) \<and>
   (snd (Atoi param) = Some ErrRange \<longrightarrow>
      fst (Atoi param) = 2 ^ 63 - 1 \<or> fst (Atoi param) = - (2 ^ 63))"
proof -
  have a: "fst (Atoi param) = 0 \<and>
      Min_validator fieldValue param = '''' \<and>
      (fieldValue \<noteq> '''' \<longrightarrow>
         Max_validator fieldValue param = ''max length is '' @ param) \<and>
      Max_validator '''' param = ''''" if "snd (Atoi param) = Some ErrSyntax"
    using that by (simp add: Atoi_syntax_zero Min_validator_def Max_validator_def)
  have b: "snd (Atoi param) = Some ErrSyntax \<longleftrightarrow> \<not> decimal_literal param"
    if "length param < 19"
    using that by (rule Atoi_short)
  have c: "fst (Atoi param) = 2 ^ 63 - 1 \<or> fst (Atoi param) = - (2 ^ 63)"
    if "snd (Atoi param) = Some ErrRange"
    using that by (rule Atoi_range_bound)
  from a b c show ?thesis by blast
qed

theorem syntax_error_param_is_zero_witness:
  "length ''abc'' < 19 \<and> \<not> decimal_literal ''abc'' \<and>
   snd (Atoi ''abc'') = Some ErrSyntax \<and> Min_validator ''Al'' ''abc'' = '''' \<and>
   Max_validator ''Al'' ''abc'' = ''max length is abc'' \<and>
   snd (Atoi ''99999999999999999999x'') = Some ErrRange \<and>
   (fst (Atoi ''99999999999999999999x'') = 2 ^ 63 - 1 \<or>
    fst (Atoi ''99999999999999999999x'') = - (2 ^ 63))"
proof -
  have l: "length ''abc'' < 19" by simp
  have d: "\<not> decimal_literal ''abc''" by (simp add: decimal_literal_def is_digit_def)
  have r: "snd (Atoi ''99999999999999999999x'') = Some ErrRange"
    by (simp add: Atoi_def ParseInt_def ParseUint_def cutoff_def maxVal_def)
  note t = syntax_error_param_is_zero [of "''abc''" "''Al''"]
  from t l d have h: "snd (Atoi ''abc'') = Some ErrSyntax" by blast
  with t have "Min_validator ''Al'' ''abc'' = '''' \<and>
        Max_validator ''Al'' ''abc'' = ''max length is abc''"
    by simp
  moreover from syntax_error_param_is_zero [of "''99999999999999999999x''" "''Al''"] r
  have "fst (Atoi ''99999999999999999999x'') = 2 ^ 63 - 1 \<or>
        fst (Atoi ''99999999999999999999x'') = - (2 ^ 63)"
    by blast
  ultimately show ?thesis using l d h r by blast
qed

end
